theory Spec2Isabelle
  imports Main "HOL-Library.Sublist"
begin

section \<open>Strings and formatting used by Watch\<close>

text \<open>
  Go strings are byte sequences; they are modelled as \<open>string\<close> (a list of bytes).
  The three helpers below are the standard-library calls the program makes:
  \<^verbatim>\<open>strings.Join(args, " ")\<close>, \<^verbatim>\<open>fmt.Sprintf("%d", n)\<close> and
  \<^verbatim>\<open>strings.Split(v, "=")[0]\<close>.
\<close>

definition nl :: string where
  "nl = [CHR 0x0A]"

fun join :: "string list \<Rightarrow> string \<Rightarrow> string" where
  "join [] sep = []"
| "join [x] sep = x"
| "join (x # y # ys) sep = x @ sep @ join (y # ys) sep"

definition digit :: "nat \<Rightarrow> char" where
  "digit n = ''0123456789'' ! n"

function decimal_nat :: "nat \<Rightarrow> string" where
  "decimal_nat n = (if n < 10 then [digit n] else decimal_nat (n div 10) @ [digit (n mod 10)])"
  by pat_completeness auto
termination
  by (relation "measure (\<lambda>n. n)") auto

declare decimal_nat.simps [simp del]

definition decimal :: "int \<Rightarrow> string" where
  "decimal i = (if i < 0 then ''-'' @ decimal_nat (nat (- i)) else decimal_nat (nat i))"

definition split_first :: "string \<Rightarrow> string" where
  "split_first v = takeWhile (\<lambda>c. c \<noteq> CHR ''='') v"

section \<open>Notification events\<close>

text \<open>The fields of \<^verbatim>\<open>acme.LogEvent\<close> that the program reads.\<close>

record LogEvent =
  ID :: int
  Op :: string
  Name :: string

section \<open>Env builder: \<^verbatim>\<open>envOf\<close>\<close>

text \<open>
  A Go slice of strings is either \<^verbatim>\<open>nil\<close> (\<open>None\<close>) or holds a list of
  entries. \<^verbatim>\<open>append\<close> with at least one new element always gives a slice that is
  not \<^verbatim>\<open>nil\<close>; with none it gives back its argument.
\<close>

type_synonym slice = "string list option"

definition elems :: "slice \<Rightarrow> string list" where
  "elems sl = (case sl of None \<Rightarrow> [] | Some l \<Rightarrow> l)"

definition append_slice :: "slice \<Rightarrow> string list \<Rightarrow> slice" where
  "append_slice sl vs = (if vs = [] then sl else Some (elems sl @ vs))"

text \<open>
  The loop over \<^verbatim>\<open>os.Environ()\<close> appends every entry whose key is not one of
  the three reserved names to \<open>filtered\<close>, which starts as \<^verbatim>\<open>nil\<close>; the ambient
  environment is a parameter.
\<close>

definition reserved :: "string \<Rightarrow> bool" where
  "reserved k = (k = ''samfile'' \<or> k = ''%'' \<or> k = ''winid'')"

fun envOf_loop :: "slice \<Rightarrow> string list \<Rightarrow> slice" where
  "envOf_loop filtered [] = filtered"
| "envOf_loop filtered (v # vs) =
     (if reserved (split_first v) then envOf_loop filtered vs
      else envOf_loop (append_slice filtered [v]) vs)"

definition envOf :: "string list \<Rightarrow> LogEvent option \<Rightarrow> slice" where
  "envOf environ event =
     (let filtered = envOf_loop None environ in
      case event of
        None \<Rightarrow> filtered
      | Some e \<Rightarrow>
          append_slice filtered
            [''samfile='' @ Name e, ''%='' @ Name e, ''winid='' @ decimal (ID e)])"


text \<open>
  The environment \<^verbatim>\<open>os/exec\<close> starts a process with: the entries of
  \<^verbatim>\<open>cmd.Env\<close>, or the environment of the parent when \<^verbatim>\<open>cmd.Env\<close> is \<^verbatim>\<open>nil\<close>.
\<close>

definition cmd_environ :: "string list \<Rightarrow> slice \<Rightarrow> string list" where
  "cmd_environ parent env = (case env of None \<Rightarrow> parent | Some l \<Rightarrow> l)"

section \<open>The restart channel \<^verbatim>\<open>needrun\<close>\<close>

text \<open>
  \<^verbatim>\<open>make(chan *acme.LogEvent, 1)\<close>: the buffered contents, oldest first; a nil
  pointer is \<open>None\<close>. A plain send blocks on a full buffer (\<open>None\<close>), a receive
  blocks on an empty one, and \<^verbatim>\<open>select { case needrun <- v: default: }\<close> never blocks.
\<close>

type_synonym chan = "LogEvent option list"

definition cap :: nat where
  "cap = 1"

definition send :: "LogEvent option \<Rightarrow> chan \<Rightarrow> chan option" where
  "send v ch = (if length ch < cap then Some (ch @ [v]) else None)"

definition recv :: "chan \<Rightarrow> (LogEvent option \<times> chan) option" where
  "recv ch = (case ch of [] \<Rightarrow> None | v # rest \<Rightarrow> Some (v, rest))"

definition try_send :: "LogEvent option \<Rightarrow> chan \<Rightarrow> chan" where
  "try_send v ch = (case send v ch of Some ch' \<Rightarrow> ch' | None \<Rightarrow> ch)"

section \<open>Effects and program state\<close>

text \<open>
  Calls on the acme window \<^verbatim>\<open>win\<close>. \<^verbatim>\<open>win.Fprintf(file, ...)\<close> is a
  \<open>Write\<close> of the formatted text to that file.
\<close>

record Event =
  C2 :: char
  Text :: string

datatype win_call =
    Addr string
  | Write string string
  | Ctl string
  | SetName string
  | WriteEvent Event

datatype out_dest = Pipe | Terminal

text \<open>
  Every effectful call of the program appends one action to the trace, in program order.
  \<open>IdIncr n\<close> is \<^verbatim>\<open>run.id++\<close> with the new value \<open>n\<close>; \<open>Start\<close> is
  \<^verbatim>\<open>cmd.Start()\<close> with the command line, \<^verbatim>\<open>cmd.Env\<close> and where the output
  goes; processes are named by the handle that a successful start yields.
\<close>

datatype action =
    Lock
  | Unlock
  | IdIncr int
  | Kill nat
  | Start "string list" slice out_dest
  | Close_r
  | Close_w
  | Wait nat
  | Win win_call
  | Sleep nat
  | Fatal string
  | Exit nat
  | Usage

text \<open>The closure of the goroutine that \<^verbatim>\<open>runner\<close> starts: it captures \<open>id\<close> and \<open>cmd\<close>.\<close>

record relay =
  rid :: int
  rcmd :: nat
  rdone :: bool

record state =
  run_id :: int
  needrun :: chan
  lastcmd :: "nat option"
  relays :: "relay list"
  trace :: "action list"
  exited :: "nat option"

definition init :: state where
  "init = \<lparr>run_id = 0, needrun = [], lastcmd = None, relays = [], trace = [], exited = None\<rparr>"

definition emit :: "action \<Rightarrow> state \<Rightarrow> state" where
  "emit a s = s\<lparr>trace := trace s @ [a]\<rparr>"

definition log_Fatal :: "string \<Rightarrow> state \<Rightarrow> state" where
  "log_Fatal err s = (emit (Fatal err) s)\<lparr>exited := Some 1\<rparr>"

text \<open>Go's \<^verbatim>\<open>int\<close> is 64 bits wide here; \<^verbatim>\<open>++\<close> wraps at the top.\<close>

definition int_incr :: "int \<Rightarrow> int" where
  "int_incr x = (if x = 2 ^ 63 - 1 then - (2 ^ 63) else x + 1)"

section \<open>Configuration\<close>

text \<open>
  The package-level values fixed before the loops start: the command line
  \<^verbatim>\<open>args\<close>, the \<^verbatim>\<open>-t\<close> flag, the result of \<^verbatim>\<open>os.Getwd()\<close>, the
  ambient \<^verbatim>\<open>os.Environ()\<close>, and \<open>re\<close>, which is \<^verbatim>\<open>re.MatchString\<close> of the
  compiled \<^verbatim>\<open>-only\<close> pattern.
\<close>

record config =
  args :: "string list"
  term_flag :: bool
  pwd :: string
  environ :: "string list"
  re :: "string \<Rightarrow> bool"

section \<open>\<^verbatim>\<open>main\<close>\<close>

text \<open>
  \<^verbatim>\<open>main\<close> in \<^verbatim>\<open>main.go\<close> up to the point where its goroutines are started
  (lines 44 to 68). The result of \<^verbatim>\<open>acme.New()\<close> is an input (\<open>Some err\<close> on
  failure). The first plain send meets an empty buffer.
\<close>

definition main_start :: "config \<Rightarrow> string option \<Rightarrow> state \<Rightarrow> state option" where
  "main_start c new_err s =
     (if args c = [] then Some ((emit (Exit 2) (emit Usage s))\<lparr>exited := Some 2\<rparr>)
      else case send None (needrun s) of
        None \<Rightarrow> None
      | Some ch \<Rightarrow>
         (let s = s\<lparr>needrun := ch\<rparr> in
          if term_flag c then Some s
          else
            (case new_err of
               Some err \<Rightarrow> Some (log_Fatal err s)
             | None \<Rightarrow>
                (let s = emit (Win (SetName (pwd c @ ''/+watch''))) s;
                     s = emit (Win (Ctl ''clean'')) s
                 in Some (emit (Win (Write ''tag'' ''Get '')) s)))))"

text \<open>
  \<open>main_setup\<close> is \<open>main_start\<close> followed at once by the call of \<^verbatim>\<open>acme.Log()\<close>
  (line 70), whose result is the input \<open>log_err\<close>: the runs in which \<open>main\<close> reaches
  that call before a goroutine has taken a step. The scheduler of single calls below
  takes the call as a step of its own.
\<close>

definition main_setup ::
  "config \<Rightarrow> string option \<Rightarrow> string option \<Rightarrow> state \<Rightarrow> state option" where
  "main_setup c new_err log_err s =
     (case main_start c new_err s of
        None \<Rightarrow> None
      | Some s \<Rightarrow>
          if exited s \<noteq> None then Some s
          else (case log_err of Some err \<Rightarrow> Some (log_Fatal err s) | None \<Rightarrow> Some s))"

text \<open>
  One pass of the \<^verbatim>\<open>for\<close> loop of \<^verbatim>\<open>main\<close> in \<^verbatim>\<open>main.go\<close>. The result of
  \<^verbatim>\<open>l.Read()\<close> is the input.
\<close>

definition main_loop :: "config \<Rightarrow> string + LogEvent \<Rightarrow> state \<Rightarrow> state" where
  "main_loop c rd s =
     (case rd of
        Inl err \<Rightarrow> log_Fatal err s
      | Inr event \<Rightarrow>
          if Name event \<noteq> [] \<and> Op event = ''put'' \<and> prefix (pwd c) (Name event)
             \<and> re c (Name event)
          then (let s = s\<lparr>needrun := try_send (Some event) (needrun s)\<rparr>
                in emit (Sleep 100) s)
          else s)"





section \<open>\<^verbatim>\<open>events\<close>\<close>

text \<open>
  One pass of the loop over \<^verbatim>\<open>win.EventChan()\<close>; \<open>None\<close> is the closed channel,
  after which the program exits with status 0.
\<close>

definition events :: "Event option \<Rightarrow> state \<Rightarrow> state" where
  "events ev s =
     (case ev of
        None \<Rightarrow> (emit (Exit 0) s)\<lparr>exited := Some 0\<rparr>
      | Some e \<Rightarrow>
          if (C2 e = CHR ''x'' \<or> C2 e = CHR ''X'') \<and> Text e = ''Get''
          then s\<lparr>needrun := try_send None (needrun s)\<rparr>
          else (let s = (if (C2 e = CHR ''x'' \<or> C2 e = CHR ''X'') \<and> Text e = ''Del''
                         then emit (Win (Ctl ''delete'')) s else s)
                in emit (Win (WriteEvent e)) s))"

section \<open>\<^verbatim>\<open>termRunner\<close>\<close>

text \<open>
  One pass of \<^verbatim>\<open>for event := range needrun\<close> with the received \<open>event\<close>. The
  result of \<^verbatim>\<open>cmd.Start()\<close> is the input \<open>start\<close>: \<open>Inl err\<close> or the handle of
  the new process. The goroutine that waits for the process has no effect of its own.
\<close>

definition termRunner :: "config \<Rightarrow> LogEvent option \<Rightarrow> string + nat \<Rightarrow> state \<Rightarrow> state" where
  "termRunner c event start s =
     (let s = (case lastcmd s of Some p \<Rightarrow> emit (Kill p) s | None \<Rightarrow> s);
          s = s\<lparr>lastcmd := None\<rparr>;
          s = emit (Start (args c) (envOf (environ c) event) Terminal) s
      in case start of
           Inl err \<Rightarrow> s
         | Inr cmd \<Rightarrow> (let s = s\<lparr>lastcmd := Some cmd\<rparr> in emit (Wait cmd) s))"

section \<open>\<^verbatim>\<open>runner\<close>\<close>

text \<open>
  One pass of the loop of \<^verbatim>\<open>runner\<close>. The result of \<^verbatim>\<open>os.Pipe()\<close> is the input
  \<open>pipe_err\<close> (\<open>Some err\<close> on failure) and that of \<^verbatim>\<open>cmd.Start()\<close> the input
  \<open>start\<close>. On success the goroutine is added to \<open>relays\<close> with the captured \<open>id\<close>.
\<close>

definition runner ::
  "config \<Rightarrow> LogEvent option \<Rightarrow> string option \<Rightarrow> string + nat \<Rightarrow> state \<Rightarrow> state" where
  "runner c event pipe_err start s =
     (let s = emit Lock s;
          s = emit (IdIncr (int_incr (run_id s))) (s\<lparr>run_id := int_incr (run_id s)\<rparr>);
          id = run_id s;
          s = emit Unlock s;
          s = (case lastcmd s of Some p \<Rightarrow> emit (Kill p) s | None \<Rightarrow> s);
          s = s\<lparr>lastcmd := None\<rparr>
      in case pipe_err of
           Some err \<Rightarrow> log_Fatal err s
         | None \<Rightarrow>
            (let s = emit (Win (Addr '','')) s;
                 s = emit (Win (Write ''data'' [])) s;
                 s = emit (Win (Ctl ''clean'')) s;
                 s = emit (Win (Write ''body'' (''$ '' @ join (args c) '' '' @ nl))) s;
                 s = emit (Start (args c) (envOf (environ c) event) Pipe) s
             in case start of
                  Inl err \<Rightarrow>
                    (let s = emit Close_r s;
                         s = emit Close_w s
                     in emit (Win (Write ''body'' (join (args c) '' '' @ '': '' @ err @ nl))) s)
                | Inr cmd \<Rightarrow>
                    (let s = s\<lparr>lastcmd := Some cmd\<rparr>;
                         s = emit Close_w s
                     in s\<lparr>relays := relays s @ [\<lparr>rid = id, rcmd = cmd, rdone = False\<rparr>]\<rparr>)))"

text \<open>
  The goroutine of relay \<open>k\<close>. \<open>relay_chunk\<close> is one pass of its read loop with a
  successful \<^verbatim>\<open>r.Read(buf)\<close>, \<open>chunk\<close> being \<^verbatim>\<open>buf[:n]\<close>. \<open>relay_end\<close> is the rest
  of the goroutine after a failed read: \<open>werr\<close> is the result of \<^verbatim>\<open>cmd.Wait()\<close>.
\<close>

definition relay_chunk :: "nat \<Rightarrow> string \<Rightarrow> state \<Rightarrow> state" where
  "relay_chunk k chunk s =
     (let id = rid (relays s ! k);
          s = emit Lock s;
          s = (if id = run_id s then emit (Win (Write ''body'' chunk)) s else s)
      in emit Unlock s)"

definition relay_end :: "config \<Rightarrow> nat \<Rightarrow> string option \<Rightarrow> state \<Rightarrow> state" where
  "relay_end c k werr s =
     (let id = rid (relays s ! k);
          s = emit (Wait (rcmd (relays s ! k))) s;
          s = (case werr of
                 Some err \<Rightarrow>
                   (let s = emit Lock s;
                        s = (if id = run_id s
                             then emit (Win (Write ''body'' (join (args c) '' '' @ '': '' @ err @ nl))) s
                             else s)
                    in emit Unlock s)
               | None \<Rightarrow> s);
          s = emit (Win (Write ''body'' (''$'' @ nl))) s;
          s = emit (Win (Write ''addr'' ''#0'')) s;
          s = emit (Win (Ctl ''dot=addr'')) s;
          s = emit (Win (Ctl ''show'')) s;
          s = emit (Win (Ctl ''clean'')) s
      in s\<lparr>relays := (relays s)[k := (relays s ! k)\<lparr>rdone := True\<rparr>]\<rparr>)"

section \<open>Interleaving the goroutines\<close>

text \<open>
  A schedule names which goroutine runs next and what its blocking call returns. A step
  is not enabled (\<open>None\<close>) after the process has exited, when the runner finds
  \<^verbatim>\<open>needrun\<close> empty, or when the relay does not exist or has finished. The read
  buffer of a relay holds 4096 bytes. An iteration of \<open>runner\<close> and the end of a
  relay are each one step here: these are the runs in which no other goroutine comes
  between the calls of that iteration or of that end. The runs in which their window
  calls are interleaved are those of \<open>fine_step\<close> below.
\<close>

datatype step =
    MainRead "string + LogEvent"
  | WinEvent "Event option"
  | RunnerIter "string option" "string + nat"
  | TermRunnerIter "string + nat"
  | RelayChunk nat string
  | RelayEnd nat "string option"

definition sys_step :: "config \<Rightarrow> step \<Rightarrow> state \<Rightarrow> state option" where
  "sys_step c st s =
     (if exited s \<noteq> None then None
      else case st of
        MainRead rd \<Rightarrow> Some (main_loop c rd s)
      | WinEvent ev \<Rightarrow> if term_flag c then None else Some (events ev s)
      | RunnerIter pipe_err start \<Rightarrow>
          if term_flag c then None
          else (case recv (needrun s) of
                  None \<Rightarrow> None
                | Some (event, ch) \<Rightarrow> Some (runner c event pipe_err start (s\<lparr>needrun := ch\<rparr>)))
      | TermRunnerIter start \<Rightarrow>
          if \<not> term_flag c then None
          else (case recv (needrun s) of
                  None \<Rightarrow> None
                | Some (event, ch) \<Rightarrow> Some (termRunner c event start (s\<lparr>needrun := ch\<rparr>)))
      | RelayChunk k chunk \<Rightarrow>
          if k < length (relays s) \<and> \<not> rdone (relays s ! k) \<and> length chunk \<le> 4096
          then Some (relay_chunk k chunk s) else None
      | RelayEnd k werr \<Rightarrow>
          if k < length (relays s) \<and> \<not> rdone (relays s ! k)
          then Some (relay_end c k werr s) else None)"

fun exec :: "config \<Rightarrow> step list \<Rightarrow> state \<Rightarrow> state option" where
  "exec c [] s = Some s"
| "exec c (st # sts) s = (case sys_step c st s of None \<Rightarrow> None | Some s' \<Rightarrow> exec c sts s')"

section \<open>Interleaving single calls\<close>

text \<open>
  In \<open>sys_step\<close> an iteration of \<open>runner\<close> and the end of a relay each run without
  another goroutine in between. In the program only the parts between
  \<^verbatim>\<open>run.Lock()\<close> and \<^verbatim>\<open>run.Unlock()\<close> exclude each other: the window calls of
  \<open>runner\<close> (lines 172 to 175 and 182) and those of a relay after the wait (lines
  207 to 211) take no lock. The parts of the two functions are named here, and
  \<open>fine_step\<close> schedules them one call at a time.
\<close>

definition calls :: "win_call list \<Rightarrow> state \<Rightarrow> state" where
  "calls cs s = foldl (\<lambda>s x. emit (Win x) s) s cs"

text \<open>Lines 159 to 171 of \<open>runner\<close>.\<close>

definition runner_begin :: "config \<Rightarrow> string option \<Rightarrow> state \<Rightarrow> state" where
  "runner_begin c pipe_err s =
     (let s = emit Lock s;
          s = emit (IdIncr (int_incr (run_id s))) (s\<lparr>run_id := int_incr (run_id s)\<rparr>);
          s = emit Unlock s;
          s = (case lastcmd s of Some p \<Rightarrow> emit (Kill p) s | None \<Rightarrow> s);
          s = s\<lparr>lastcmd := None\<rparr>
      in case pipe_err of Some err \<Rightarrow> log_Fatal err s | None \<Rightarrow> s)"

text \<open>Lines 172 to 175.\<close>

definition runner_calls :: "config \<Rightarrow> win_call list" where
  "runner_calls c =
     [Addr '','', Write ''data'' [], Ctl ''clean'',
      Write ''body'' (''$ '' @ join (args c) '' '' @ nl)]"

text \<open>
  Lines 176 to 186 and the \<^verbatim>\<open>go\<close> statement, \<open>g\<close> being the captured
  \<^verbatim>\<open>id\<close>; the window
  call of the failure branch (line 182) is returned as still to be made.
\<close>

definition runner_start ::
  "config \<Rightarrow> LogEvent option \<Rightarrow> int \<Rightarrow> string + nat \<Rightarrow> state \<Rightarrow> state \<times> win_call list" where
  "runner_start c event g start s =
     (let s = emit (Start (args c) (envOf (environ c) event) Pipe) s
      in case start of
           Inl err \<Rightarrow>
             (let s = emit Close_r s;
                  s = emit Close_w s
              in (s, [Write ''body'' (join (args c) '' '' @ '': '' @ err @ nl)]))
         | Inr cmd \<Rightarrow>
             (let s = s\<lparr>lastcmd := Some cmd\<rparr>;
                  s = emit Close_w s
              in (s\<lparr>relays := relays s @ [\<lparr>rid = g, rcmd = cmd, rdone = False\<rparr>]\<rparr>, [])))"

text \<open>Lines 200 to 206 of the relay, then lines 207 to 211, then its return.\<close>

definition relay_wait :: "config \<Rightarrow> nat \<Rightarrow> string option \<Rightarrow> state \<Rightarrow> state" where
  "relay_wait c k werr s =
     (let id = rid (relays s ! k);
          s = emit (Wait (rcmd (relays s ! k))) s
      in case werr of
           Some err \<Rightarrow>
             (let s = emit Lock s;
                  s = (if id = run_id s
                       then emit (Win (Write ''body'' (join (args c) '' '' @ '': '' @ err @ nl))) s
                       else s)
              in emit Unlock s)
         | None \<Rightarrow> s)"

definition relay_calls :: "win_call list" where
  "relay_calls =
     [Write ''body'' (''$'' @ nl), Write ''addr'' ''#0'', Ctl ''dot=addr'', Ctl ''show'',
      Ctl ''clean'']"

definition relay_done :: "nat \<Rightarrow> state \<Rightarrow> state" where
  "relay_done k s = s\<lparr>relays := (relays s)[k := (relays s ! k)\<lparr>rdone := True\<rparr>]\<rparr>"

text \<open>
  Where \<open>runner\<close> stands: blocked on \<^verbatim>\<open>needrun\<close>, before \<^verbatim>\<open>cmd.Start()\<close> with
  the received event, the captured id and the window calls still to make, or after a
  failed start with the calls still to make. \<open>epend\<close> holds, for a relay that is past
  \<^verbatim>\<open>cmd.Wait()\<close>, its calls still to make; \<open>logged\<close> says that \<^verbatim>\<open>acme.Log()\<close>
  has returned.
\<close>

datatype rpos =
    Idle
  | Calling "LogEvent option" int "win_call list"
  | Failed "win_call list"

record fstate =
  base :: state
  rpos :: rpos
  epend :: "nat \<Rightarrow> win_call list option"
  logged :: bool

definition fstart :: "state \<Rightarrow> fstate" where
  "fstart s = \<lparr>base = s, rpos = Idle, epend = (\<lambda>k. None), logged = False\<rparr>"

datatype fstep =
    Coarse step
  | MainLog "string option"
  | RunnerBegin "string option"
  | RunnerCall
  | RunnerStart "string + nat"
  | RelayWait nat "string option"
  | RelayCall nat

definition fine_step :: "config \<Rightarrow> fstep \<Rightarrow> fstate \<Rightarrow> fstate option" where
  "fine_step c fs f =
     (if exited (base f) \<noteq> None then None
      else case fs of
        Coarse st \<Rightarrow>
          if (case st of
                MainRead rd \<Rightarrow> logged f
              | WinEvent ev \<Rightarrow> True
              | RunnerIter pipe_err start \<Rightarrow> rpos f = Idle
              | TermRunnerIter start \<Rightarrow> True
              | RelayChunk k chunk \<Rightarrow> epend f k = None
              | RelayEnd k werr \<Rightarrow> epend f k = None)
          then (case sys_step c st (base f) of
                  None \<Rightarrow> None
                | Some s \<Rightarrow> Some (f\<lparr>base := s\<rparr>))
          else None
      | MainLog log_err \<Rightarrow>
          if logged f then None
          else (case log_err of
                  Some err \<Rightarrow> Some (f\<lparr>base := log_Fatal err (base f)\<rparr>)
                | None \<Rightarrow> Some (f\<lparr>logged := True\<rparr>))
      | RunnerBegin pipe_err \<Rightarrow>
          if term_flag c \<or> rpos f \<noteq> Idle then None
          else (case recv (needrun (base f)) of
                  None \<Rightarrow> None
                | Some (event, ch) \<Rightarrow>
                    (let s = runner_begin c pipe_err ((base f)\<lparr>needrun := ch\<rparr>)
                     in Some (f\<lparr>base := s,
                                rpos := (if pipe_err = None
                                         then Calling event (run_id s) (runner_calls c)
                                         else Idle)\<rparr>)))
      | RunnerCall \<Rightarrow>
          (case rpos f of
             Calling event g (x # xs) \<Rightarrow>
               Some (f\<lparr>base := emit (Win x) (base f), rpos := Calling event g xs\<rparr>)
           | Failed (x # xs) \<Rightarrow>
               Some (f\<lparr>base := emit (Win x) (base f),
                       rpos := (if xs = [] then Idle else Failed xs)\<rparr>)
           | _ \<Rightarrow> None)
      | RunnerStart start \<Rightarrow>
          (case rpos f of
             Calling event g [] \<Rightarrow>
               (case runner_start c event g start (base f) of
                  (s, rest) \<Rightarrow>
                    Some (f\<lparr>base := s, rpos := (if rest = [] then Idle else Failed rest)\<rparr>))
           | _ \<Rightarrow> None)
      | RelayWait k werr \<Rightarrow>
          if k < length (relays (base f)) \<and> \<not> rdone (relays (base f) ! k) \<and> epend f k = None
          then Some (f\<lparr>base := relay_wait c k werr (base f),
                       epend := (epend f)(k := Some relay_calls)\<rparr>)
          else None
      | RelayCall k \<Rightarrow>
          (case epend f k of
             Some (x # xs) \<Rightarrow>
               (let s = emit (Win x) (base f)
                in if xs = [] then Some (f\<lparr>base := relay_done k s, epend := (epend f)(k := None)\<rparr>)
                   else Some (f\<lparr>base := s, epend := (epend f)(k := Some xs)\<rparr>))
           | _ \<Rightarrow> None))"

fun fexec :: "config \<Rightarrow> fstep list \<Rightarrow> fstate \<Rightarrow> fstate option" where
  "fexec c [] f = Some f"
| "fexec c (fs # fss) f = (case fine_step c fs f of None \<Rightarrow> None | Some f' \<Rightarrow> fexec c fss f')"

section \<open>The acme window\<close>

text \<open>
  What the window does with the calls the program makes, after acme(4): the address
  \<^verbatim>\<open>,\<close> is the whole body and \<^verbatim>\<open>#0\<close> the empty range at its start; a write to
  \<^verbatim>\<open>data\<close> replaces the addressed range and leaves the address after the new text;
  a write to \<^verbatim>\<open>body\<close> appends; \<^verbatim>\<open>clean\<close> marks the window unmodified.
  Other addresses and control messages are not used by the program and leave the
  window as it is, as does handing an event back to acme.
\<close>

record window =
  body :: string
  addr :: "nat \<times> nat"
  dot :: "nat \<times> nat"
  dirty :: bool
  tag :: string
  wname :: string
  deleted :: bool

definition set_addr :: "string \<Rightarrow> window \<Rightarrow> window" where
  "set_addr a w =
     (if a = '','' then w\<lparr>addr := (0, length (body w))\<rparr>
      else if a = ''#0'' then w\<lparr>addr := (0, 0)\<rparr>
      else w)"

fun win_apply :: "window \<Rightarrow> win_call \<Rightarrow> window" where
  "win_apply w (Addr a) = set_addr a w"
| "win_apply w (Write f t) =
     (if f = ''addr'' then set_addr t w
      else if f = ''data'' then
        w\<lparr>body := take (fst (addr w)) (body w) @ t @ drop (snd (addr w)) (body w),
          addr := (fst (addr w) + length t, fst (addr w) + length t),
          dirty := True\<rparr>
      else if f = ''body'' then w\<lparr>body := body w @ t, dirty := True\<rparr>
      else if f = ''tag'' then w\<lparr>tag := tag w @ t\<rparr>
      else w)"
| "win_apply w (Ctl m) =
     (if m = ''clean'' then w\<lparr>dirty := False\<rparr>
      else if m = ''dot=addr'' then w\<lparr>dot := addr w\<rparr>
      else if m = ''delete'' then w\<lparr>deleted := True\<rparr>
      else w)"
| "win_apply w (SetName n) = w\<lparr>wname := n\<rparr>"
| "win_apply w (WriteEvent e) = w"

fun sink :: "action list \<Rightarrow> win_call list" where
  "sink [] = []"
| "sink (Win c # as) = c # sink as"
| "sink (a # as) = sink as"

definition display :: "window \<Rightarrow> action list \<Rightarrow> window" where
  "display w as = foldl win_apply w (sink as)"

text \<open>The window that \<^verbatim>\<open>acme.New()\<close> opens is empty.\<close>

definition new_window :: window where
  "new_window =
     \<lparr>body = [], addr = (0, 0), dot = (0, 0), dirty = False, tag = [], wname = [],
      deleted = False\<rparr>"

text \<open>The actions a function call added to the trace.\<close>

definition added :: "state \<Rightarrow> state \<Rightarrow> action list" where
  "added s s' = drop (length (trace s)) (trace s')"

text \<open>The steps in which \<open>runner\<close> takes a signal.\<close>

fun is_RunnerIter :: "step \<Rightarrow> bool" where
  "is_RunnerIter (RunnerIter pipe_err start) = True"
| "is_RunnerIter st = False"

text \<open>
  The invariant of the generations: the relays, in the order they were started, carry
  strictly increasing ids, all positive and none above \<open>run_id\<close>.
\<close>

definition gen_inv :: "state \<Rightarrow> bool" where
  "gen_inv s = (sorted_wrt (<) (map rid (relays s))
     \<and> (\<forall>g \<in> set (map rid (relays s)). 0 < g \<and> g \<le> run_id s))"

text \<open>
  The steps of the scheduler of single calls that increment \<open>run_id\<close>, and the
  invariant of the generations there: between the increment and the start of an
  iteration the captured id is \<open>run_id\<close> and lies above the id of every relay.
\<close>

fun increments :: "fstep \<Rightarrow> bool" where
  "increments (Coarse st) = is_RunnerIter st"
| "increments (RunnerBegin pipe_err) = True"
| "increments fs = False"

definition fine_inv :: "fstate \<Rightarrow> bool" where
  "fine_inv f = (gen_inv (base f) \<and> 0 \<le> run_id (base f)
     \<and> (case rpos f of
           Calling event g cs \<Rightarrow>
             g = run_id (base f) \<and> 0 < g \<and> (\<forall>x \<in> set (map rid (relays (base f))). x < g)
         | _ \<Rightarrow> True))"

text \<open>An attempt to start the command.\<close>

fun is_Start :: "action \<Rightarrow> bool" where
  "is_Start (Start as env out) = True"
| "is_Start a = False"

text \<open>In a list of actions, the first \<open>a\<close> is followed by a \<open>b\<close>.\<close>

fun precedes :: "action \<Rightarrow> action \<Rightarrow> action list \<Rightarrow> bool" where
  "precedes a b [] = False"
| "precedes a b (x # xs) = (if x = a then b \<in> set xs else precedes a b xs)"

section \<open>The parts make up the whole\<close>

text \<open>
  \<open>runner\<close> is its parts in sequence, and so is \<open>relay_end\<close>; a step of \<open>sys_step\<close>
  for an iteration or for the end of a relay is the run of \<open>fine_step\<close> in which the
  calls of that goroutine follow one another.
\<close>

lemma runner_phases:
  "runner c event pipe_err start s =
     (case pipe_err of
        Some err \<Rightarrow> runner_begin c pipe_err s
      | None \<Rightarrow>
          (let s1 = calls (runner_calls c) (runner_begin c None s)
           in case runner_start c event (run_id s1) start s1 of
                (s2, rest) \<Rightarrow> calls rest s2))"
  by (simp add: runner_def runner_begin_def runner_calls_def runner_start_def calls_def
      emit_def log_Fatal_def Let_def split: option.splits sum.splits)

lemma relay_end_phases:
  "relay_end c k werr s = relay_done k (calls relay_calls (relay_wait c k werr s))"
  by (simp add: relay_end_def relay_wait_def relay_calls_def relay_done_def calls_def
      emit_def Let_def split: option.splits)

lemma fine_runner_iter:
  assumes "rpos f = Idle"
  shows "fexec c ([RunnerBegin None, RunnerCall, RunnerCall, RunnerCall, RunnerCall,
                   RunnerStart start] @ (case start of Inl err \<Rightarrow> [RunnerCall] | Inr p \<Rightarrow> [])) f
    = fine_step c (Coarse (RunnerIter None start)) f"
  using assms
  by (cases start)
     (auto simp add: fine_step_def sys_step_def recv_def runner_def runner_begin_def
       runner_calls_def runner_start_def emit_def Let_def split: option.splits list.splits)

lemma fine_relay_end:
  assumes "epend f k = None"
  shows "fexec c [RelayWait k werr, RelayCall k, RelayCall k, RelayCall k, RelayCall k,
                  RelayCall k] f
    = fine_step c (Coarse (RelayEnd k werr)) f"
  using assms
  by (auto simp add: fine_step_def sys_step_def relay_end_def relay_wait_def relay_calls_def
       relay_done_def emit_def Let_def fun_upd_idem split: option.splits)

section \<open>Properties of the env builder\<close>








text \<open>
  The corner in which the slice is \<^verbatim>\<open>nil\<close>: every ambient entry is reserved and
  there is no event, so \<open>envOf\<close> has no entry to hold and the command is started with
  the environment of the supervisor.
\<close>

lemma envOf_nil_inherits:
  "envOf [''winid=3'', ''samfile=/old''] None = None
   \<and> cmd_environ [''winid=3'', ''samfile=/old''] (envOf [''winid=3'', ''samfile=/old''] None)
       = [''winid=3'', ''samfile=/old'']"
  by (simp add: envOf_def reserved_def split_first_def cmd_environ_def)

section \<open>Properties of the restart channel\<close>

text \<open>
  Claim C8. An enqueue by \<^verbatim>\<open>select\<close> with a \<^verbatim>\<open>default\<close> branch always returns:
  on the empty channel the new context becomes the one pending signal, on a channel
  that holds a signal the new context is dropped and the pending one stays as it was.
  This is what the notification loop does with a qualifying event and what the window
  loop does with an executed \<^verbatim>\<open>Get\<close>; the plain send at startup meets the empty
  channel and completes.
\<close>

theorem enqueue_nonblocking:
  "(length ch \<le> cap \<longrightarrow> try_send v ch = (if ch = [] then [v] else ch))
   \<and> length (try_send v ch) \<le> max cap (length ch)
   \<and> (length (needrun s) \<le> cap \<and> Name event \<noteq> [] \<and> Op event = ''put''
        \<and> prefix (pwd c) (Name event) \<and> re c (Name event) \<longrightarrow>
      needrun (main_loop c (Inr event) s)
        = (if needrun s = [] then [Some event] else needrun s))
   \<and> (length (needrun s) \<le> cap \<and> (C2 e = CHR ''x'' \<or> C2 e = CHR ''X'') \<and> Text e = ''Get'' \<longrightarrow>
      needrun (events (Some e) s) = (if needrun s = [] then [None] else needrun s))
   \<and> (needrun s0 = [] \<and> args c \<noteq> [] \<longrightarrow>
      (\<exists>s'. main_setup c new_err log_err s0 = Some s' \<and> needrun s' = [None]))"
  by (auto simp add: try_send_def send_def cap_def main_loop_def events_def emit_def Let_def
      main_setup_def main_start_def log_Fatal_def split: option.splits)

theorem enqueue_nonblocking_witness:
  "length [None :: LogEvent option] \<le> cap
   \<and> try_send (Some \<lparr>ID = 7, Op = ''put'', Name = ''/w/a.go''\<rparr>) [None] = [None]
   \<and> needrun (main_loop
        \<lparr>args = [''go''], term_flag = False, pwd = ''/w'', environ = [], re = (\<lambda>x. True)\<rparr>
        (Inr \<lparr>ID = 7, Op = ''put'', Name = ''/w/a.go''\<rparr>) (init\<lparr>needrun := [None]\<rparr>)) = [None]
   \<and> needrun (events (Some \<lparr>C2 = CHR ''x'', Text = ''Get''\<rparr>) (init\<lparr>needrun := [None]\<rparr>))
       = [None]
   \<and> needrun init = []
   \<and> (\<exists>s'. main_setup
        \<lparr>args = [''go''], term_flag = False, pwd = ''/w'', environ = [], re = (\<lambda>x. True)\<rparr>
        None None init = Some s' \<and> needrun s' = [None])"
  using enqueue_nonblocking [of "[None]" "Some \<lparr>ID = 7, Op = ''put'', Name = ''/w/a.go''\<rparr>"
      "init\<lparr>needrun := [None]\<rparr>" "\<lparr>ID = 7, Op = ''put'', Name = ''/w/a.go''\<rparr>"
      "\<lparr>args = [''go''], term_flag = False, pwd = ''/w'', environ = [], re = (\<lambda>x. True)\<rparr>"
      "\<lparr>C2 = CHR ''x'', Text = ''Get''\<rparr>" init None None]
  by (simp add: cap_def init_def)

section \<open>Properties of the output relay\<close>

text \<open>
  Claim C1. When a relay bound to generation \<open>rid\<close> has read a chunk, the chunk is
  written to the window body if and only if \<open>rid\<close> equals \<open>run_id\<close> at the
  comparison, which sits between \<open>Lock\<close> and \<open>Unlock\<close>. A chunk of another
  generation adds only the lock and the unlock to the trace and changes nothing else
  of the state, so it is gone.
\<close>

theorem relay_chunk_gated:
  assumes "sys_step c (RelayChunk k chunk) s = Some s'"
  shows "(Write ''body'' chunk \<in> set (sink (added s s'))) = (rid (relays s ! k) = run_id s)
    \<and> sink (added s s') = (if rid (relays s ! k) = run_id s then [Write ''body'' chunk] else [])
    \<and> trace s' = trace s
         @ (if rid (relays s ! k) = run_id s then [Lock, Win (Write ''body'' chunk), Unlock]
            else [Lock, Unlock])
    \<and> s'\<lparr>trace := []\<rparr> = s\<lparr>trace := []\<rparr>
    \<and> k < length (relays s)"
proof -
  from assms have en: "k < length (relays s)" and s': "s' = relay_chunk k chunk s"
    by (auto simp add: sys_step_def split: if_splits)
  show ?thesis
    unfolding s' using en by (simp add: relay_chunk_def emit_def added_def Let_def)
qed

theorem relay_chunk_gated_witness:
  "sys_step \<lparr>args = [''go'', ''test''], term_flag = False, pwd = ''/w'', environ = [],
             re = (\<lambda>x. True)\<rparr> (RelayChunk 0 ''late'')
     \<lparr>run_id = 2, needrun = [], lastcmd = Some 11,
      relays = [\<lparr>rid = 1, rcmd = 10, rdone = False\<rparr>, \<lparr>rid = 2, rcmd = 11, rdone = False\<rparr>],
      trace = [], exited = None\<rparr>
   = Some \<lparr>run_id = 2, needrun = [], lastcmd = Some 11,
      relays = [\<lparr>rid = 1, rcmd = 10, rdone = False\<rparr>, \<lparr>rid = 2, rcmd = 11, rdone = False\<rparr>],
      trace = [Lock, Unlock], exited = None\<rparr>
   \<and> Write ''body'' ''late'' \<notin> set (sink [Lock, Unlock])"
proof -
  let ?c = "\<lparr>args = [''go'', ''test''], term_flag = False, pwd = ''/w'', environ = [],
             re = (\<lambda>x. True)\<rparr>"
  let ?s = "\<lparr>run_id = 2, needrun = [], lastcmd = Some 11,
      relays = [\<lparr>rid = 1, rcmd = 10, rdone = False\<rparr>, \<lparr>rid = 2, rcmd = 11, rdone = False\<rparr>],
      trace = [], exited = None\<rparr>"
  have h: "sys_step ?c (RelayChunk 0 ''late'') ?s = Some (relay_chunk 0 ''late'' ?s)"
    by (simp add: sys_step_def)
  from relay_chunk_gated [OF h] show ?thesis
    by (simp add: sys_step_def relay_chunk_def emit_def Let_def)
qed

text \<open>
  Claim C2. The end of a relay: after \<^verbatim>\<open>cmd.Wait()\<close> only the failure line is
  written under the comparison of \<open>rid\<close> with \<open>run_id\<close>. The end-of-run marker, the
  address reset and the three control messages follow outside the lock and without
  the comparison, so a relay of a superseded generation writes them as well. The
  second part runs the schedule: start process 10, restart by \<^verbatim>\<open>Get\<close> with process
  11, then the first relay ends with generation 1 while \<open>run_id\<close> is 2.
\<close>

theorem relay_end_marker_ungated:
  "sink (added s (relay_end c k werr s))
     = (case werr of
          Some err \<Rightarrow> if rid (relays s ! k) = run_id s
                      then [Write ''body'' (join (args c) '' '' @ '': '' @ err @ nl)] else []
        | None \<Rightarrow> [])
       @ [Write ''body'' (''$'' @ nl), Write ''addr'' ''#0'', Ctl ''dot=addr'', Ctl ''show'',
          Ctl ''clean'']
   \<and> (case exec \<lparr>args = [''go'', ''test''], term_flag = False, pwd = ''/w'', environ = [],
                  re = (\<lambda>x. True)\<rparr>
         [RunnerIter None (Inr 10), WinEvent (Some \<lparr>C2 = CHR ''x'', Text = ''Get''\<rparr>),
          RunnerIter None (Inr 11)] (init\<lparr>needrun := [None]\<rparr>) of
         None \<Rightarrow> False
       | Some s1 \<Rightarrow>
           rid (relays s1 ! 0) = 1 \<and> run_id s1 = 2
           \<and> (case sys_step \<lparr>args = [''go'', ''test''], term_flag = False, pwd = ''/w'',
                    environ = [], re = (\<lambda>x. True)\<rparr> (RelayEnd 0 (Some ''signal: killed'')) s1 of
                 None \<Rightarrow> False
               | Some s2 \<Rightarrow>
                   sink (added s1 s2)
                     = [Write ''body'' (''$'' @ nl), Write ''addr'' ''#0'', Ctl ''dot=addr'',
                        Ctl ''show'', Ctl ''clean'']))"
  apply (rule conjI)
   apply (simp add: relay_end_def emit_def added_def Let_def split: option.splits)
  apply (simp add: sys_step_def recv_def runner_def events_def try_send_def send_def cap_def
      relay_end_def emit_def added_def Let_def init_def int_incr_def)
  done

section \<open>Properties of one supervisor iteration\<close>

lemma runner_prefix:
  "\<exists>rest. added s (runner c event pipe_err start s)
     = [Lock, IdIncr (int_incr (run_id s)), Unlock]
       @ (case lastcmd s of Some p \<Rightarrow> [Kill p] | None \<Rightarrow> []) @ rest
     \<and> (\<forall>p. Kill p \<notin> set rest) \<and> (\<forall>n. IdIncr n \<notin> set rest)"
  by (auto simp add: runner_def emit_def added_def Let_def log_Fatal_def
      split: option.splits sum.splits)

text \<open>
  Claim C4, as stated, fails: with process 5 tracked, the next iteration of \<open>runner\<close>
  increments \<open>run_id\<close> to 2 under the lock first and sends the kill afterwards.
\<close>

theorem kill_before_increment_counterexample:
  "(case exec \<lparr>args = [''go'', ''test''], term_flag = False, pwd = ''/w'', environ = [],
               re = (\<lambda>x. True)\<rparr>
      [RunnerIter None (Inr 5), WinEvent (Some \<lparr>C2 = CHR ''x'', Text = ''Get''\<rparr>)]
      (init\<lparr>needrun := [None]\<rparr>) of
      None \<Rightarrow> False
    | Some s1 \<Rightarrow>
        lastcmd s1 = Some 5
        \<and> (case sys_step \<lparr>args = [''go'', ''test''], term_flag = False, pwd = ''/w'',
                 environ = [], re = (\<lambda>x. True)\<rparr> (RunnerIter None (Inr 6)) s1 of
              None \<Rightarrow> False
            | Some s2 \<Rightarrow>
                added s1 s2
                  = [Lock, IdIncr 2, Unlock, Kill 5, Win (Addr '',''), Win (Write ''data'' []),
                     Win (Ctl ''clean''), Win (Write ''body'' (''$ go test'' @ nl)),
                     Start [''go'', ''test''] None Pipe, Close_w]
                \<and> \<not> precedes (Kill 5) (IdIncr 2) (added s1 s2)))"
  by (simp add: sys_step_def recv_def runner_def events_def try_send_def send_def cap_def
      emit_def added_def Let_def init_def int_incr_def envOf_def)

text \<open>
  Claim C4, amended. In every iteration of \<open>runner\<close> that finds a tracked process
  \<open>p\<close>, the counter is incremented and the new value captured under the lock first,
  and the kill of \<open>p\<close> is the next action; no increment follows the kill. In
  \<open>termRunner\<close> the kill is the first action and the counter is not touched.
\<close>

theorem increment_before_kill:
  assumes "lastcmd s = Some p"
  shows "take 4 (added s (runner c event pipe_err start s))
           = [Lock, IdIncr (int_incr (run_id s)), Unlock, Kill p]
    \<and> precedes (IdIncr (int_incr (run_id s))) (Kill p) (added s (runner c event pipe_err start s))
    \<and> \<not> precedes (Kill p) (IdIncr n) (added s (runner c event pipe_err start s))
    \<and> run_id (runner c event pipe_err start s) = int_incr (run_id s)
    \<and> take 1 (added s (termRunner c event start s)) = [Kill p]
    \<and> IdIncr n \<notin> set (added s (termRunner c event start s))
    \<and> run_id (termRunner c event start s) = run_id s"
proof -
  obtain rest where r: "added s (runner c event pipe_err start s)
      = [Lock, IdIncr (int_incr (run_id s)), Unlock, Kill p] @ rest"
    and ni: "\<forall>m. IdIncr m \<notin> set rest"
    using runner_prefix [of s c event pipe_err start] assms by auto
  have a: "take 4 (added s (runner c event pipe_err start s))
      = [Lock, IdIncr (int_incr (run_id s)), Unlock, Kill p]"
    unfolding r by simp
  have b: "precedes (IdIncr (int_incr (run_id s))) (Kill p)
      (added s (runner c event pipe_err start s))"
    unfolding r by simp
  have c: "\<not> precedes (Kill p) (IdIncr n) (added s (runner c event pipe_err start s))"
    unfolding r using ni by simp
  have d: "run_id (runner c event pipe_err start s) = int_incr (run_id s)"
    by (simp add: runner_def emit_def Let_def log_Fatal_def split: option.splits sum.splits)
  have e: "take 1 (added s (termRunner c event start s)) = [Kill p]"
    using assms by (simp add: termRunner_def emit_def added_def Let_def split: sum.splits)
  have f: "IdIncr n \<notin> set (added s (termRunner c event start s))"
    using assms by (simp add: termRunner_def emit_def added_def Let_def split: sum.splits)
  have g: "run_id (termRunner c event start s) = run_id s"
    by (simp add: termRunner_def emit_def Let_def split: option.splits sum.splits)
  from a b c d e f g show ?thesis by simp
qed

theorem increment_before_kill_witness:
  "lastcmd (init\<lparr>run_id := 1, lastcmd := Some 5\<rparr>) = Some 5
   \<and> take 4 (added (init\<lparr>run_id := 1, lastcmd := Some 5\<rparr>)
        (runner \<lparr>args = [''go'', ''test''], term_flag = False, pwd = ''/w'', environ = [],
                  re = (\<lambda>x. True)\<rparr> None None (Inr 6) (init\<lparr>run_id := 1, lastcmd := Some 5\<rparr>)))
       = [Lock, IdIncr 2, Unlock, Kill 5]"
proof -
  have h: "lastcmd (init\<lparr>run_id := 1, lastcmd := Some 5\<rparr>) = Some 5"
    by (simp add: init_def)
  from increment_before_kill [OF h, of "\<lparr>args = [''go'', ''test''], term_flag = False,
      pwd = ''/w'', environ = [], re = (\<lambda>x. True)\<rparr>" None None "Inr 6"] h
  show ?thesis by (simp add: init_def int_incr_def)
qed

text \<open>
  Claim C5, as stated, fails: process 5 is tracked, the next start fails, and after
  that iteration no process is tracked.
\<close>

theorem start_failure_keeps_previous_counterexample:
  "(case exec \<lparr>args = [''go'', ''test''], term_flag = False, pwd = ''/w'', environ = [],
               re = (\<lambda>x. True)\<rparr>
      [RunnerIter None (Inr 5), WinEvent (Some \<lparr>C2 = CHR ''x'', Text = ''Get''\<rparr>)]
      (init\<lparr>needrun := [None]\<rparr>) of
      None \<Rightarrow> False
    | Some s1 \<Rightarrow>
        lastcmd s1 = Some 5
        \<and> (case sys_step \<lparr>args = [''go'', ''test''], term_flag = False, pwd = ''/w'',
                 environ = [], re = (\<lambda>x. True)\<rparr>
               (RunnerIter None (Inl ''exec: not found'')) s1 of
              None \<Rightarrow> False
            | Some s2 \<Rightarrow> lastcmd s2 = None \<and> lastcmd s2 \<noteq> lastcmd s1))"
  by (simp add: sys_step_def recv_def runner_def events_def try_send_def send_def cap_def
      emit_def Let_def init_def int_incr_def)

text \<open>
  Claim C5, amended. In every iteration in which the start fails, no relay is added
  and no process is tracked afterwards: the process tracked before has been sent its
  kill in this iteration and its reference is cleared, so the next iteration sends no
  kill. This holds for \<open>runner\<close> and for \<open>termRunner\<close>.
\<close>

theorem start_failure_clears_lastcmd:
  "lastcmd (runner c event None (Inl err) s) = None
   \<and> relays (runner c event None (Inl err) s) = relays s
   \<and> Kill p \<in> set (added s (runner c event None (Inl err) s)) = (lastcmd s = Some p)
   \<and> Kill p \<notin> set (added (runner c event None (Inl err) s)
                    (runner c event' pipe_err' start' (runner c event None (Inl err) s)))
   \<and> lastcmd (termRunner c event (Inl err) s) = None
   \<and> relays (termRunner c event (Inl err) s) = relays s
   \<and> Kill p \<in> set (added s (termRunner c event (Inl err) s)) = (lastcmd s = Some p)
   \<and> Kill p \<notin> set (added (termRunner c event (Inl err) s)
                    (termRunner c event' start' (termRunner c event (Inl err) s)))"
proof -
  have a: "lastcmd (runner c event None (Inl err) s) = None"
    by (simp add: runner_def emit_def Let_def split: option.splits)
  have b: "relays (runner c event None (Inl err) s) = relays s"
    by (simp add: runner_def emit_def Let_def split: option.splits)
  have k: "Kill p \<in> set (added s (runner c event None (Inl err) s)) = (lastcmd s = Some p)"
    by (auto simp add: runner_def emit_def added_def Let_def split: option.splits)
  have n: "lastcmd s' = None
      \<Longrightarrow> Kill p \<notin> set (added s' (runner c event' pipe_err' start' s'))" for s'
    by (auto simp add: runner_def emit_def added_def Let_def log_Fatal_def
        split: option.splits sum.splits)
  have a': "lastcmd (termRunner c event (Inl err) s) = None"
    by (simp add: termRunner_def emit_def Let_def split: option.splits)
  have b': "relays (termRunner c event (Inl err) s) = relays s"
    by (simp add: termRunner_def emit_def Let_def split: option.splits)
  have k': "Kill p \<in> set (added s (termRunner c event (Inl err) s)) = (lastcmd s = Some p)"
    by (auto simp add: termRunner_def emit_def added_def Let_def split: option.splits)
  have n': "lastcmd s' = None
      \<Longrightarrow> Kill p \<notin> set (added s' (termRunner c event' start' s'))" for s'
    by (auto simp add: termRunner_def emit_def added_def Let_def split: option.splits sum.splits)
  from a b k n [OF a] a' b' k' n' [OF a'] show ?thesis by simp
qed




section \<open>Properties of the notification filter\<close>



section \<open>Properties of the sink at the start of an iteration\<close>

text \<open>
  The window calls that \<open>runner\<close> makes before its start attempt, taken by
  themselves: address the whole body, replace it by nothing, mark the window clean,
  append the header. Applied to any window \<open>w\<close> with no call of another goroutine
  between them, they leave the header alone in the body, a dollar sign, a space and
  the command line; after a failed start the failure line follows it.
\<close>

lemma uninterrupted_iteration_clears:
  "sink (takeWhile (\<lambda>a. \<not> is_Start a) (added s (runner c event None start s)))
     = [Addr '','', Write ''data'' [], Ctl ''clean'',
        Write ''body'' (''$ '' @ join (args c) '' '' @ nl)]
   \<and> body (display w (takeWhile (\<lambda>a. \<not> is_Start a) (added s (runner c event None start s))))
     = ''$ '' @ join (args c) '' '' @ nl
   \<and> filter is_Start (added s (runner c event None start s))
     = [Start (args c) (envOf (environ c) event) Pipe]
   \<and> body (display w (added s (runner c event None (Inl err) s)))
     = ''$ '' @ join (args c) '' '' @ nl @ join (args c) '' '' @ '': '' @ err @ nl
   \<and> body (display w (added s (runner c event None (Inr cmd) s)))
     = ''$ '' @ join (args c) '' '' @ nl"
proof -
  have 1: "added s (runner c event None start s)
      = [Lock, IdIncr (int_incr (run_id s)), Unlock]
        @ (case lastcmd s of Some p \<Rightarrow> [Kill p] | None \<Rightarrow> [])
        @ [Win (Addr '',''), Win (Write ''data'' []), Win (Ctl ''clean''),
           Win (Write ''body'' (''$ '' @ join (args c) '' '' @ nl)),
           Start (args c) (envOf (environ c) event) Pipe]
        @ (case start of
             Inl err \<Rightarrow> [Close_r, Close_w,
                          Win (Write ''body'' (join (args c) '' '' @ '': '' @ err @ nl))]
           | Inr cmd \<Rightarrow> [Close_w])" for start
    by (simp add: runner_def emit_def added_def Let_def split: option.splits sum.splits)
  show ?thesis
    unfolding 1
    by (simp add: display_def set_addr_def split: option.splits sum.splits)
qed

text \<open>
  Claim C10. Every windowed iteration does make these four calls before its start
  attempt, but the claim that no output of an earlier run remains visible once the
  iteration has begun does not hold of the program. The calls take no lock, and a
  relay of the superseded generation makes its end-of-run calls without comparing its
  id (the defect of claim C2). In the schedule below the first run has written a line
  of output; after a \<^verbatim>\<open>Get\<close> the second iteration increments \<open>run_id\<close>, kills
  process 10 and addresses the whole body; the relay of the first run then appends
  its marker and resets the address to \<^verbatim>\<open>#0\<close>; the write of nothing to
  \<^verbatim>\<open>data\<close> now replaces the empty range at the start, and the header is appended
  to a body that still holds the old output and the stale marker. The start then
  fails, and the old output is still there.
\<close>

theorem stale_relay_defeats_clear:
  "(case main_start \<lparr>args = [''go'', ''test''], term_flag = False, pwd = ''/w'', environ = [],
                     re = (\<lambda>x. True)\<rparr> None init of
      None \<Rightarrow> False
    | Some s0 \<Rightarrow>
        (case fexec \<lparr>args = [''go'', ''test''], term_flag = False, pwd = ''/w'', environ = [],
                     re = (\<lambda>x. True)\<rparr>
           [Coarse (RunnerIter None (Inr 10)), Coarse (RelayChunk 0 (''old output'' @ nl)),
            Coarse (WinEvent (Some \<lparr>C2 = CHR ''x'', Text = ''Get''\<rparr>)),
            RunnerBegin None, RelayWait 0 (Some ''signal: killed''),
            RunnerCall, RelayCall 0, RelayCall 0, RunnerCall, RunnerCall, RunnerCall,
            RelayCall 0, RelayCall 0, RelayCall 0,
            RunnerStart (Inl ''exec: not found''), RunnerCall] (fstart s0) of
           None \<Rightarrow> False
         | Some f \<Rightarrow>
             run_id (base f) = 2 \<and> rid (relays (base f) ! 0) = 1
             \<and> sink (drop 15 (trace (base f)))
               = [Addr '','', Write ''body'' (''$'' @ nl), Write ''addr'' ''#0'',
                  Write ''data'' [], Ctl ''clean'', Write ''body'' (''$ go test'' @ nl),
                  Ctl ''dot=addr'', Ctl ''show'', Ctl ''clean'',
                  Write ''body'' (''go test: exec: not found'' @ nl)]
             \<and> body (display new_window (trace (base f)))
               = ''$ go test'' @ nl @ ''old output'' @ nl @ ''$'' @ nl @ ''$ go test'' @ nl
                 @ ''go test: exec: not found'' @ nl))"
  by (simp add: main_start_def send_def cap_def init_def fstart_def fine_step_def sys_step_def
      recv_def runner_def relay_chunk_def events_def try_send_def runner_begin_def
      runner_calls_def runner_start_def relay_wait_def relay_calls_def relay_done_def
      emit_def Let_def int_incr_def envOf_def display_def set_addr_def new_window_def nl_def)

section \<open>Generations\<close>

lemma rid_mark_done:
  "k < length xs \<Longrightarrow> map rid (xs[k := (xs ! k)\<lparr>rdone := True\<rparr>]) = map rid xs"
  by (simp add: list_eq_iff_nth_eq nth_list_update)

lemma sys_step_run_id:
  assumes "sys_step c st s = Some s'"
  shows "run_id s' = (if is_RunnerIter st then int_incr (run_id s) else run_id s)"
proof (cases st)
  case (MainRead rd)
  with assms show ?thesis
    by (auto simp add: sys_step_def main_loop_def emit_def log_Fatal_def Let_def
        split: if_splits sum.splits)
next
  case (WinEvent ev)
  with assms show ?thesis
    by (auto simp add: sys_step_def events_def emit_def Let_def split: if_splits option.splits)
next
  case (RunnerIter pipe_err start)
  with assms show ?thesis
    by (auto simp add: sys_step_def recv_def runner_def emit_def log_Fatal_def Let_def
        split: if_splits option.splits sum.splits list.splits)
next
  case (TermRunnerIter start)
  with assms show ?thesis
    by (auto simp add: sys_step_def recv_def termRunner_def emit_def Let_def
        split: if_splits option.splits sum.splits list.splits)
next
  case (RelayChunk k chunk)
  with assms show ?thesis
    by (auto simp add: sys_step_def relay_chunk_def emit_def Let_def split: if_splits)
next
  case (RelayEnd k werr)
  with assms show ?thesis
    by (auto simp add: sys_step_def relay_end_def emit_def Let_def split: if_splits option.splits)
qed

lemma sys_step_relays:
  assumes "sys_step c st s = Some s'"
  shows "map rid (relays s') = map rid (relays s)
    \<or> (is_RunnerIter st \<and> map rid (relays s') = map rid (relays s) @ [run_id s'])"
proof (cases st)
  case (MainRead rd)
  with assms show ?thesis
    by (auto simp add: sys_step_def main_loop_def emit_def log_Fatal_def Let_def
        split: if_splits sum.splits)
next
  case (WinEvent ev)
  with assms show ?thesis
    by (auto simp add: sys_step_def events_def emit_def Let_def split: if_splits option.splits)
next
  case (RunnerIter pipe_err start)
  with assms show ?thesis
    by (auto simp add: sys_step_def recv_def runner_def emit_def log_Fatal_def Let_def
        split: if_splits option.splits sum.splits list.splits)
next
  case (TermRunnerIter start)
  with assms show ?thesis
    by (auto simp add: sys_step_def recv_def termRunner_def emit_def Let_def
        split: if_splits option.splits sum.splits list.splits)
next
  case (RelayChunk k chunk)
  with assms show ?thesis
    by (auto simp add: sys_step_def relay_chunk_def emit_def Let_def split: if_splits)
next
  case (RelayEnd k werr)
  with assms show ?thesis
    by (auto simp add: sys_step_def relay_end_def emit_def Let_def rid_mark_done
        split: if_splits option.splits)
qed

lemma sys_step_inv:
  assumes st: "sys_step c st s = Some s'" and inv: "gen_inv s"
    and lo: "0 \<le> run_id s" and hi: "run_id s < 2 ^ 63 - 1"
  shows "gen_inv s' \<and> run_id s' = run_id s + (if is_RunnerIter st then 1 else 0)"
proof -
  have r: "run_id s' = run_id s + (if is_RunnerIter st then 1 else 0)"
    using sys_step_run_id [OF st] hi by (simp add: int_incr_def)
  from sys_step_relays [OF st] have "gen_inv s'"
  proof
    assume "map rid (relays s') = map rid (relays s)"
    with inv r show ?thesis by (auto simp add: gen_inv_def)
  next
    assume a: "is_RunnerIter st \<and> map rid (relays s') = map rid (relays s) @ [run_id s']"
    with r have "run_id s' = run_id s + 1" by simp
    with a inv lo show ?thesis
      by (auto simp add: gen_inv_def sorted_wrt_append)
  qed
  with r show ?thesis by simp
qed

lemma exec_inv:
  "exec c sched s = Some s' \<Longrightarrow> gen_inv s \<Longrightarrow> 0 \<le> run_id s
   \<Longrightarrow> run_id s + int (length sched) < 2 ^ 63
   \<Longrightarrow> gen_inv s' \<and> run_id s' = run_id s + int (length (filter is_RunnerIter sched))"
proof (induction sched arbitrary: s)
  case Nil
  then show ?case by simp
next
  case (Cons st sts)
  from Cons.prems(1) obtain s1 where s1: "sys_step c st s = Some s1"
    and rest: "exec c sts s1 = Some s'"
    by (auto split: option.splits)
  from Cons.prems have hi: "run_id s < 2 ^ 63 - 1" by simp
  from sys_step_inv [OF s1 Cons.prems(2) Cons.prems(3) hi]
  have i1: "gen_inv s1" and r1: "run_id s1 = run_id s + (if is_RunnerIter st then 1 else 0)"
    by simp_all
  have "0 \<le> run_id s1" using r1 Cons.prems(3) by simp
  moreover have "run_id s1 + int (length sts) < 2 ^ 63" using r1 Cons.prems(4) by simp
  ultimately have "gen_inv s' \<and> run_id s' = run_id s1 + int (length (filter is_RunnerIter sts))"
    using Cons.IH [OF rest i1] by simp
  with r1 show ?case by simp
qed

lemma main_setup_gen:
  "main_setup c new_err log_err init = Some s0 \<Longrightarrow> run_id s0 = 0 \<and> relays s0 = []"
  by (auto simp add: main_setup_def main_start_def init_def emit_def log_Fatal_def Let_def send_def
      split: if_splits option.splits)

text \<open>
  Claim C3. From the state that \<open>main\<close> sets up, along every schedule of the
  goroutines, \<open>run_id\<close> is the number of iterations \<open>runner\<close> has made: each
  iteration adds one, no other step changes it, it never decreases. The ids captured
  by the relays, in the order the relays were started, are strictly increasing. The
  schedule is shorter than \<open>2 ^ 63\<close> steps, so the 64-bit counter has not wrapped.
\<close>

theorem generation_monotone:
  assumes "main_setup c new_err log_err init = Some s0"
    and "exec c sched s0 = Some s"
    and "length sched < 2 ^ 63"
  shows "sorted_wrt (<) (map rid (relays s))
    \<and> run_id s = int (length (filter is_RunnerIter sched))
    \<and> (\<forall>r \<in> set (relays s). 0 < rid r \<and> rid r \<le> run_id s)
    \<and> (\<forall>a b s1. sched = a @ b \<and> exec c a s0 = Some s1 \<longrightarrow>
          run_id s1 = int (length (filter is_RunnerIter a)) \<and> run_id s1 \<le> run_id s)"
proof -
  from main_setup_gen [OF assms(1)] have z: "run_id s0 = 0" and e: "relays s0 = []"
    by simp_all
  from e have i0: "gen_inv s0" by (simp add: gen_inv_def)
  have fin: "gen_inv s \<and> run_id s = run_id s0 + int (length (filter is_RunnerIter sched))"
    using exec_inv [OF assms(2) i0] z assms(3) by simp
  have pre: "run_id s1 = int (length (filter is_RunnerIter a)) \<and> run_id s1 \<le> run_id s"
    if "sched = a @ b" and "exec c a s0 = Some s1" for a b s1
  proof -
    from that(1) assms(3) have "run_id s0 + int (length a) < 2 ^ 63"
      using z by simp
    from exec_inv [OF that(2) i0 _ this] z
    have "run_id s1 = int (length (filter is_RunnerIter a))" by simp
    with fin z that(1) show ?thesis by simp
  qed
  from fin z pre show ?thesis
    by (auto simp add: gen_inv_def)
qed

theorem generation_monotone_witness:
  "(case main_setup \<lparr>args = [''go'', ''test''], term_flag = False, pwd = ''/w'', environ = [],
                     re = (\<lambda>x. True)\<rparr> None None init of
      None \<Rightarrow> False
    | Some s0 \<Rightarrow>
        (case exec \<lparr>args = [''go'', ''test''], term_flag = False, pwd = ''/w'', environ = [],
                    re = (\<lambda>x. True)\<rparr>
           [RunnerIter None (Inr 10), RelayChunk 0 ''ok'',
            MainRead (Inr \<lparr>ID = 7, Op = ''put'', Name = ''/w/a.go''\<rparr>),
            RunnerIter None (Inl ''not found''),
            WinEvent (Some \<lparr>C2 = CHR ''x'', Text = ''Get''\<rparr>),
            RunnerIter None (Inr 11)] s0 of
           None \<Rightarrow> False
         | Some s \<Rightarrow> map rid (relays s) = [1, 3] \<and> sorted_wrt (<) (map rid (relays s))
             \<and> run_id s = 3))"
proof -
  let ?c = "\<lparr>args = [''go'', ''test''], term_flag = False, pwd = ''/w'', environ = [],
             re = (\<lambda>x. True)\<rparr>"
  let ?sched = "[RunnerIter None (Inr 10), RelayChunk 0 ''ok'',
            MainRead (Inr \<lparr>ID = 7, Op = ''put'', Name = ''/w/a.go''\<rparr>),
            RunnerIter None (Inl ''not found''),
            WinEvent (Some \<lparr>C2 = CHR ''x'', Text = ''Get''\<rparr>),
            RunnerIter None (Inr 11)]"
  let ?s0 = "\<lparr>run_id = 0, needrun = [None], lastcmd = None, relays = [],
      trace = [Win (SetName ''/w/+watch''), Win (Ctl ''clean''), Win (Write ''tag'' ''Get '')],
      exited = None\<rparr>"
  have h1: "main_setup ?c None None init = Some ?s0"
    by (simp add: main_setup_def main_start_def send_def cap_def init_def emit_def Let_def)
  obtain s where h2: "exec ?c ?sched ?s0 = Some s" and ids: "map rid (relays s) = [1, 3]"
    by (simp add: send_def cap_def emit_def Let_def sys_step_def
        recv_def runner_def main_loop_def events_def try_send_def relay_chunk_def int_incr_def)
  have h3: "length ?sched < 2 ^ 63" by simp
  from generation_monotone [OF h1 h2 h3] h1 h2 ids show ?thesis by simp
qed

text \<open>
  The generations along schedules of single calls, where the window calls of an
  iteration and of a relay's end are interleaved with the steps of the other
  goroutines and \<^verbatim>\<open>acme.Log()\<close> is called while the goroutines run: \<open>run_id\<close>
  still counts the iterations begun, and the ids of the relays are still strictly
  increasing.
\<close>

lemma rid_relay_done: "map rid (relays (relay_done k s)) = map rid (relays s)"
proof (cases "k < length (relays s)")
  case True
  then show ?thesis by (simp add: relay_done_def rid_mark_done)
next
  case False
  then have "length (relays s) \<le> k" by simp
  then show ?thesis by (simp add: relay_done_def list_update_beyond)
qed

lemma fine_step_inv:
  assumes st: "fine_step c fs f = Some f'" and inv: "fine_inv f"
    and hi: "run_id (base f) < 2 ^ 63 - 1"
  shows "fine_inv f' \<and> run_id (base f') = run_id (base f) + (if increments fs then 1 else 0)"
proof (cases fs)
  case (Coarse x)
  from st Coarse obtain s where s: "sys_step c x (base f) = Some s" and f': "f' = f\<lparr>base := s\<rparr>"
    and idle: "is_RunnerIter x \<Longrightarrow> rpos f = Idle"
    by (cases x) (auto simp add: fine_step_def split: if_splits option.splits)
  from inv have gi: "gen_inv (base f)" and lo: "0 \<le> run_id (base f)"
    by (simp_all add: fine_inv_def)
  from sys_step_inv [OF s gi lo hi]
  have g: "gen_inv s" and r: "run_id s = run_id (base f) + (if is_RunnerIter x then 1 else 0)"
    by simp_all
  have "fine_inv f'"
  proof (cases "is_RunnerIter x")
    case True
    with idle g r lo show ?thesis by (simp add: fine_inv_def f')
  next
    case False
    with sys_step_relays [OF s] have "map rid (relays s) = map rid (relays (base f))" by auto
    with False g r lo inv show ?thesis
      by (auto simp add: fine_inv_def f' split: rpos.splits)
  qed
  with r Coarse f' show ?thesis by simp
next
  case (MainLog x)
  with st inv show ?thesis
    by (auto simp add: fine_step_def fine_inv_def gen_inv_def log_Fatal_def emit_def
        split: if_splits option.splits rpos.splits)
next
  case (RunnerBegin x)
  from st RunnerBegin obtain event ch where
    f': "f' = f\<lparr>base := runner_begin c x ((base f)\<lparr>needrun := ch\<rparr>),
                 rpos := (if x = None
                          then Calling event
                                 (run_id (runner_begin c x ((base f)\<lparr>needrun := ch\<rparr>)))
                                 (runner_calls c)
                          else Idle)\<rparr>"
    by (auto simp add: fine_step_def recv_def Let_def split: if_splits option.splits list.splits)
  have r: "run_id (runner_begin c x ((base f)\<lparr>needrun := ch\<rparr>)) = run_id (base f) + 1"
    using hi
    by (simp add: runner_begin_def log_Fatal_def emit_def Let_def int_incr_def
        split: option.splits)
  have rel: "relays (runner_begin c x ((base f)\<lparr>needrun := ch\<rparr>)) = relays (base f)"
    by (simp add: runner_begin_def log_Fatal_def emit_def Let_def split: option.splits)
  from inv have "\<forall>g \<in> set (map rid (relays (base f))). 0 < g \<and> g \<le> run_id (base f)"
    and srt: "sorted_wrt (<) (map rid (relays (base f)))" and lo: "0 \<le> run_id (base f)"
    by (simp_all add: fine_inv_def gen_inv_def)
  then have lt: "\<forall>g \<in> set (map rid (relays (base f))). 0 < g \<and> g < run_id (base f) + 1"
    by auto
  then have le: "\<forall>g \<in> set (map rid (relays (base f))). 0 < g \<and> g \<le> run_id (base f) + 1"
    by auto
  have "fine_inv f'"
    unfolding f' fine_inv_def gen_inv_def using r rel lt le srt lo by (cases x) auto
  with r f' RunnerBegin show ?thesis by simp
next
  case RunnerCall
  with st inv show ?thesis
    by (auto simp add: fine_step_def fine_inv_def gen_inv_def emit_def
        split: if_splits option.splits rpos.splits list.splits)
next
  case (RunnerStart x)
  with st inv show ?thesis
    by (auto simp add: fine_step_def fine_inv_def gen_inv_def runner_start_def emit_def Let_def
        sorted_wrt_append
        split: if_splits option.splits rpos.splits list.splits sum.splits)
next
  case (RelayWait k werr)
  with st inv show ?thesis
    by (auto simp add: fine_step_def fine_inv_def gen_inv_def relay_wait_def emit_def Let_def
        split: if_splits option.splits rpos.splits)
next
  case (RelayCall k)
  have a: "map rid (relays (base f')) = map rid (relays (base f))"
    using st RelayCall
    by (auto simp add: fine_step_def Let_def rid_relay_done emit_def
        split: if_splits option.splits list.splits)
  have b: "run_id (base f') = run_id (base f)"
    using st RelayCall
    by (auto simp add: fine_step_def Let_def relay_done_def emit_def
        split: if_splits option.splits list.splits)
  have c: "rpos f' = rpos f"
    using st RelayCall
    by (auto simp add: fine_step_def Let_def split: if_splits option.splits list.splits)
  from inv have "fine_inv f'"
    unfolding fine_inv_def gen_inv_def a b c .
  with b RelayCall show ?thesis by simp
qed

lemma fexec_inv:
  "fexec c sched f = Some f' \<Longrightarrow> fine_inv f
   \<Longrightarrow> run_id (base f) + int (length sched) < 2 ^ 63
   \<Longrightarrow> fine_inv f'
     \<and> run_id (base f') = run_id (base f) + int (length (filter increments sched))"
proof (induction sched arbitrary: f)
  case Nil
  then show ?case by simp
next
  case (Cons fs fss)
  from Cons.prems(1) obtain f1 where f1: "fine_step c fs f = Some f1"
    and rest: "fexec c fss f1 = Some f'"
    by (auto split: option.splits)
  from Cons.prems have hi: "run_id (base f) < 2 ^ 63 - 1" by simp
  from fine_step_inv [OF f1 Cons.prems(2) hi]
  have i1: "fine_inv f1"
    and r1: "run_id (base f1) = run_id (base f) + (if increments fs then 1 else 0)"
    by simp_all
  have "run_id (base f1) + int (length fss) < 2 ^ 63" using r1 Cons.prems(3) by simp
  then have "fine_inv f'
      \<and> run_id (base f') = run_id (base f1) + int (length (filter increments fss))"
    using Cons.IH [OF rest i1] by simp
  with r1 show ?case by simp
qed

lemma main_start_gen:
  "main_start c new_err init = Some s0 \<Longrightarrow> run_id s0 = 0 \<and> relays s0 = []"
  by (auto simp add: main_start_def init_def emit_def log_Fatal_def Let_def send_def
      split: if_splits option.splits)

lemma fine_generation_monotone:
  assumes "main_start c new_err init = Some s0"
    and "fexec c sched (fstart s0) = Some f"
    and "length sched < 2 ^ 63"
  shows "sorted_wrt (<) (map rid (relays (base f)))
    \<and> run_id (base f) = int (length (filter increments sched))
    \<and> (\<forall>r \<in> set (relays (base f)). 0 < rid r \<and> rid r \<le> run_id (base f))"
proof -
  from main_start_gen [OF assms(1)] have z: "run_id s0 = 0" and e: "relays s0 = []"
    by simp_all
  then have i0: "fine_inv (fstart s0)"
    by (simp add: fine_inv_def gen_inv_def fstart_def)
  have "fine_inv f \<and> run_id (base f)
      = run_id (base (fstart s0)) + int (length (filter increments sched))"
    using fexec_inv [OF assms(2) i0] z assms(3) by (simp add: fstart_def)
  with z show ?thesis
    by (auto simp add: fine_inv_def gen_inv_def fstart_def)
qed

end
